theory Spec2Isabelle
  imports Main "HOL-Library.Word" "HOL-Library.Sublist"
begin

section \<open>Data model of the corpus driver (internal/corpus/generator.go)\<close>

text \<open>
  Go strings and byte slices are sequences of bytes; an Isabelle \<open>char\<close> is one byte, so
  both are modelled as \<open>string\<close>. A nil slice and an empty slice have length 0 and are
  not told apart by the code modelled here (it only asks for \<open>len\<close>).
\<close>

type_synonym bytes = string

text \<open>
  Error values. \<open>ErrNotValidTemplate\<close> is the package variable of that name; every other
  error (those of the generator library and of the file) is an opaque value that the
  driver only passes on, modelled by its message.
\<close>

datatype error = ErrNotValidTemplate | ErrorString string

definition templateTypeCustom :: int where
  "templateTypeCustom = 0"

definition templateTypeGoText :: int where
  "templateTypeGoText = 1"

text \<open>
  Modelled from the spec: the type \<open>config.Config\<close> of pkg/genlib/config is not among the
  sources. Section 3 of the specification describes it as a map of field configurations
  keyed by field name; its zero value is the empty map. The field configuration itself
  stays a type parameter.
\<close>

type_synonym 'fc Config = "string \<rightharpoonup> 'fc"

text \<open>
  \<open>GeneratorCorpus\<close>: the struct of the same name. \<open>fs\<close> is an interface value and
  \<open>timestamp\<close> a function value, each of which may be nil (\<open>None\<close>).
\<close>

record ('fc, 'fs) GeneratorCorpus =
  config :: "'fc Config"
  fs :: "'fs option"
  location :: string
  templateType :: int
  timestamp :: "(unit \<Rightarrow> 64 word) option"

text \<open>The zero value \<open>GeneratorCorpus{}\<close>.\<close>

definition GeneratorCorpus_zero :: "('fc, 'fs) GeneratorCorpus" where
  "GeneratorCorpus_zero =
     \<lparr>config = Map.empty, fs = None, location = [], templateType = 0, timestamp = None\<rparr>"

text \<open>
  \<open>NewGenerator\<close> and \<open>NewGeneratorWithTemplate\<close>. The method value \<open>time.Now().Unix\<close>
  binds the clock reading taken when the generator is built; that reading is the
  argument \<open>now\<close> (an int64, read with \<open>sint\<close>). Go returns the pair (value, error);
  \<open>None\<close> is the nil error.
\<close>

definition NewGenerator ::
  "64 word \<Rightarrow> 'fc Config \<Rightarrow> 'fs option \<Rightarrow> string \<Rightarrow> ('fc, 'fs) GeneratorCorpus \<times> error option" where
  "NewGenerator now cfg fsys loc =
     (\<lparr>config = cfg, fs = fsys, location = loc, templateType = templateTypeCustom,
        timestamp = Some (\<lambda>_. now)\<rparr>, None)"

definition NewGeneratorWithTemplate ::
  "64 word \<Rightarrow> 'fc Config \<Rightarrow> 'fs option \<Rightarrow> string \<Rightarrow> string
     \<Rightarrow> ('fc, 'fs) GeneratorCorpus \<times> error option" where
  "NewGeneratorWithTemplate now cfg fsys loc tt =
     (if tt = ''placeholder'' then
        (\<lparr>config = cfg, fs = fsys, location = loc, templateType = templateTypeCustom,
           timestamp = Some (\<lambda>_. now)\<rparr>, None)
      else if tt = ''gotext'' then
        (\<lparr>config = cfg, fs = fsys, location = loc, templateType = templateTypeGoText,
           timestamp = Some (\<lambda>_. now)\<rparr>, None)
      else (GeneratorCorpus_zero, Some ErrNotValidTemplate))"

subsection \<open>File names\<close>

text \<open>
  \<open>strings.Replace s old new n\<close> of the Go library, for a non-empty \<open>old\<close>: the first
  \<open>n\<close> non-overlapping occurrences of \<open>old\<close>, leftmost first, are replaced by \<open>new\<close>;
  a negative \<open>n\<close> means no limit. (For an empty \<open>old\<close> Go inserts \<open>new\<close> at every rune
  boundary; \<open>sanitizeFilename\<close> never passes one, and the model returns \<open>s\<close> there.)
\<close>

function Replace :: "string \<Rightarrow> string \<Rightarrow> string \<Rightarrow> int \<Rightarrow> string" where
  "Replace s old new n =
     (if s = [] \<or> old = [] \<or> n = 0 then s
      else if prefix old s
        then new @ Replace (drop (length old) s) old new (if n < 0 then n else n - 1)
      else hd s # Replace (tl s) old new n)"
  by pat_completeness auto
termination
  by (relation "measure (\<lambda>(s, old, new, n). length s)") auto

declare Replace.simps [simp del]

definition sanitizeFilename :: "string \<Rightarrow> string" where
  "sanitizeFilename s0 =
     (let s = Replace s0 '' '' ''-'' (-1);
          s = Replace s '':'' ''-'' (-1);
          s = Replace s ''/'' ''-'' (-1);
          s = Replace s [CHR 0x5C] ''-'' (-1)
      in s)"

subsection \<open>The emission loop\<close>

text \<open>
  The outcome of a call: Go returns an \<open>error\<close> (\<open>None\<close> is nil), or the call panics.
\<close>

datatype result = Returned "error option" | Panicked

text \<open>
  \<open>genlib.Generator\<close> is an interface of pkg/genlib, which is not among the sources; the
  driver only calls \<open>Emit\<close> and \<open>Close\<close>, so a generator is the pair of these two
  operations, over a generation state \<open>'st\<close> that holds everything \<open>Emit\<close> mutates
  (the \<open>GenState\<close> and the random source). \<open>Emit\<close> appends the bytes of one record
  to the buffer it is handed: in the model it yields the new state, the bytes appended
  and the error. When it fails the driver returns at once and the buffer, a local
  variable, is dropped.
\<close>

record 'st Generator =
  Emit :: "'st \<Rightarrow> 'st \<times> bytes \<times> error option"
  Close :: "'st \<Rightarrow> error option"

text \<open>
  The three constructors of pkg/genlib and \<open>NewGenState\<close>, taken as parameters: each
  constructor yields a generator or an error.
\<close>

record ('fc, 'fld, 'st) genlib =
  genlib_NewGenerator :: "'fc Config \<Rightarrow> 'fld \<Rightarrow> error + 'st Generator"
  genlib_NewGeneratorWithCustomTemplate :: "bytes \<Rightarrow> 'fc Config \<Rightarrow> 'fld \<Rightarrow> error + 'st Generator"
  genlib_NewGeneratorWithTextTemplate :: "bytes \<Rightarrow> 'fc Config \<Rightarrow> 'fld \<Rightarrow> error + 'st Generator"
  genlib_NewGenState :: "'st"

text \<open>
  \<open>bytes.Buffer.Truncate n\<close> keeps the first \<open>n\<close> bytes and panics (\<open>None\<close>) when \<open>n\<close>
  exceeds the length of the buffer.
\<close>

definition Truncate :: "bytes \<Rightarrow> nat \<Rightarrow> bytes option" where
  "Truncate b n = (if length b < n then None else Some (take n b))"

text \<open>
  The \<open>for currentSize < totSize\<close> loop of \<open>eventsPayloadFromFields\<close>. \<open>currentSize\<close>
  and \<open>totSize\<close> are \<open>uint64\<close>, so the addition wraps around; the loop need not end,
  and \<open>None\<close> is the run that never returns. \<open>fWrite\<close> is \<open>f.Write\<close> of the output
  file, over a file state \<open>'f\<close>; the number of bytes it returns is ignored by the code.
\<close>

partial_function (option) emitLoop ::
  "'st Generator \<Rightarrow> ('f \<Rightarrow> bytes \<Rightarrow> 'f \<times> error option) \<Rightarrow> 64 word \<Rightarrow> bytes
     \<Rightarrow> 64 word \<Rightarrow> 'st \<Rightarrow> bytes \<Rightarrow> 'f \<Rightarrow> (result \<times> 'st \<times> 'f) option" where
  "emitLoop evgen fWrite totSize createPayload currentSize state buf f =
     (if currentSize < totSize then
        (case Truncate buf (length createPayload) of
           None \<Rightarrow> Some (Panicked, state, f)
         | Some buf1 \<Rightarrow>
             (case Emit evgen state of
                (state', out, Some err) \<Rightarrow> Some (Returned (Some err), state', f)
              | (state', out, None) \<Rightarrow>
                  (let buf3 = buf1 @ out @ [CHR 0x0A] in
                   case fWrite f buf3 of
                     (f', Some err) \<Rightarrow> Some (Returned (Some err), state', f')
                   | (f', None) \<Rightarrow>
                       emitLoop evgen fWrite totSize createPayload
                         (currentSize + of_nat (length buf3)) state' buf3 f')))
      else Some (Returned (Close evgen state), state, f))"

text \<open>
  \<open>eventsPayloadFromFields\<close>. The generation state is local to the call, so the outcome
  is the result and the file.
\<close>

definition eventsPayloadFromFields ::
  "('fc, 'fld, 'st) genlib \<Rightarrow> ('f \<Rightarrow> bytes \<Rightarrow> 'f \<times> error option) \<Rightarrow> ('fc, 'fs) GeneratorCorpus
     \<Rightarrow> bytes \<Rightarrow> 'fld \<Rightarrow> 64 word \<Rightarrow> bytes \<Rightarrow> 'f \<Rightarrow> (result \<times> 'f) option" where
  "eventsPayloadFromFields lib fWrite gc template flds totSize createPayload f =
     (case (if template = [] then Inr (genlib_NewGenerator lib (config gc) flds)
            else if templateType gc = templateTypeCustom
              then Inr (genlib_NewGeneratorWithCustomTemplate lib template (config gc) flds)
            else if templateType gc = templateTypeGoText
              then Inr (genlib_NewGeneratorWithTextTemplate lib template (config gc) flds)
            else Inl ErrNotValidTemplate) of
        Inl err \<Rightarrow> Some (Returned (Some err), f)
      | Inr (Inl err) \<Rightarrow> Some (Returned (Some err), f)
      | Inr (Inr evgen) \<Rightarrow>
          (let state = genlib_NewGenState lib;
               buf = (if template = [] then createPayload else [])
           in map_option (\<lambda>(r, st, f'). (r, f'))
                (emitLoop evgen fWrite totSize createPayload 0 state buf f)))"

subsection \<open>Generators and files used to exercise the loop\<close>

text \<open>
  An in-memory output file that accepts every write and keeps the buffers it was handed,
  in order; \<open>written\<close> is the number of bytes it holds.
\<close>

definition logWrite :: "bytes list \<Rightarrow> bytes \<Rightarrow> bytes list \<times> error option" where
  "logWrite log b = (log @ [b], None)"

definition written :: "bytes list \<Rightarrow> nat" where
  "written log = sum_list (map length log)"

text \<open>An output file that accepts every write and keeps nothing.\<close>

definition discardWrite :: "unit \<Rightarrow> bytes \<Rightarrow> unit \<times> error option" where
  "discardWrite f b = ((), None)"

text \<open>A generator that renders the same record at every call and never fails.\<close>

definition constGen :: "bytes \<Rightarrow> unit Generator" where
  "constGen out = \<lparr>Emit = (\<lambda>s. (s, out, None)), Close = (\<lambda>s. None)\<rparr>"

text \<open>
  A generator library whose three constructors all succeed with \<open>constGen out\<close>, and a
  \<open>GeneratorCorpus\<close> as \<open>NewGenerator\<close> builds it.
\<close>

definition constLib :: "bytes \<Rightarrow> (unit, unit, unit) genlib" where
  "constLib out =
     \<lparr>genlib_NewGenerator = (\<lambda>cfg flds. Inr (constGen out)),
      genlib_NewGeneratorWithCustomTemplate = (\<lambda>template cfg flds. Inr (constGen out)),
      genlib_NewGeneratorWithTextTemplate = (\<lambda>template cfg flds. Inr (constGen out)),
      genlib_NewGenState = ()\<rparr>"

definition testCorpus :: "(unit, unit) GeneratorCorpus" where
  "testCorpus = fst (NewGenerator 0 Map.empty None ''corpus'')"

text \<open>
  What \<open>n\<close> successive calls of \<open>Emit\<close> do, started in a given state: the state they
  leave and the records they render, in order. \<open>payloads\<close> are the buffers the loop
  hands to the file for these records: the create payload, the record and a newline.
\<close>

fun records :: "'st Generator \<Rightarrow> nat \<Rightarrow> 'st \<Rightarrow> 'st \<times> bytes list" where
  "records evgen 0 state = (state, [])"
| "records evgen (Suc n) state =
     (case Emit evgen state of
        (state', out, err) \<Rightarrow>
          (case records evgen n state' of (state'', outs) \<Rightarrow> (state'', out # outs)))"

definition payloads :: "bytes \<Rightarrow> 'st Generator \<Rightarrow> nat \<Rightarrow> 'st \<Rightarrow> bytes list" where
  "payloads createPayload evgen n state =
     map (\<lambda>out. createPayload @ out @ [CHR 0x0A]) (snd (records evgen n state))"

text \<open>A generator whose \<open>Emit\<close> fails with the given error at every call.\<close>

definition failGen :: "error \<Rightarrow> unit Generator" where
  "failGen e = \<lparr>Emit = (\<lambda>s. (s, [], Some e)), Close = (\<lambda>s. None)\<rparr>"

text \<open>A generator library whose three constructors all succeed with \<open>failGen e\<close>.\<close>

definition failLib :: "error \<Rightarrow> (unit, unit, unit) genlib" where
  "failLib e =
     \<lparr>genlib_NewGenerator = (\<lambda>cfg flds. Inr (failGen e)),
      genlib_NewGeneratorWithCustomTemplate = (\<lambda>template cfg flds. Inr (failGen e)),
      genlib_NewGeneratorWithTextTemplate = (\<lambda>template cfg flds. Inr (failGen e)),
      genlib_NewGenState = ()\<rparr>"

text \<open>An output file that keeps the buffers it was handed and rejects every write.\<close>

definition failWrite :: "error \<Rightarrow> bytes list \<Rightarrow> bytes \<Rightarrow> bytes list \<times> error option" where
  "failWrite e log b = (log @ [b], Some e)"

text \<open>
  A loop state from which the counter can never reach the target: \<open>Emit\<close> and the file
  never fail, every buffer handed to the file has a length divisible by \<open>d\<close>, \<open>d\<close>
  divides \<open>2 ^ 64\<close> and the counter, and no multiple of \<open>d\<close> below \<open>2 ^ 64\<close> reaches
  \<open>totSize\<close>. (A predicate for the proofs, not part of the program.)
\<close>

definition stuck ::
  "nat \<Rightarrow> 'st Generator \<Rightarrow> ('f \<Rightarrow> bytes \<Rightarrow> 'f \<times> error option) \<Rightarrow> 64 word \<Rightarrow> bytes
     \<Rightarrow> 64 word \<Rightarrow> bytes \<Rightarrow> bool" where
  "stuck d evgen fWrite totSize createPayload currentSize buf \<longleftrightarrow>
     (\<forall>s. snd (snd (Emit evgen s)) = None) \<and>
     (\<forall>s. d dvd length createPayload + length (fst (snd (Emit evgen s))) + 1) \<and>
     (\<forall>f b. snd (fWrite f b) = None) \<and>
     d dvd 2 ^ 64 \<and> 2 ^ 64 < unat totSize + d \<and>
     d dvd unat currentSize \<and> length createPayload \<le> length buf"

section \<open>The template parser (pkg/genlib)\<close>

text \<open>
  Modelled from the spec: \<open>parseCustomTemplate\<close> of pkg/genlib is not among the sources
  (only its test \<open>Test_ParseTemplate\<close> is). Section 4.1 of the specification gives the
  placeholder syntax \<open>{{.<identifier>}}\<close>, the identifier being a run of characters
  other than \<open>}\<close>. \<open>placeholder s\<close> is the look-ahead at the cursor: the identifier of
  the placeholder that \<open>s\<close> starts with, if it starts with one.
\<close>

definition placeholder :: "bytes \<Rightarrow> string option" where
  "placeholder s =
     (let name = takeWhile (\<lambda>c. c \<noteq> CHR ''}'') (drop 3 s) in
      if take 3 s = ''{{.'' \<and> name \<noteq> [] \<and> take 2 (drop (3 + length name) s) = ''}}''
      then Some name else None)"

text \<open>
  Modelled from the spec: the left-to-right scan of Section 4.1, with the cursor (the
  rest of the template) and the accumulator of the current literal fragment. At a
  placeholder the accumulated literal is closed off as the prefix of the identifier,
  the accumulator is reset and the cursor moves past the closing delimiter (the
  placeholder is \<open>length name + 5\<close> bytes long); any other character joins the
  accumulator; what is accumulated at the end is the trailing fragment.
\<close>

function scanTemplate :: "bytes \<Rightarrow> bytes \<Rightarrow> (string \<times> bytes) list \<times> bytes" where
  "scanTemplate [] acc = ([], acc)"
| "scanTemplate (c # cs) acc =
     (case placeholder (c # cs) of
        Some name \<Rightarrow>
          (case scanTemplate (drop (length name + 5) (c # cs)) [] of
             (flds, trailing) \<Rightarrow> ((name, acc) # flds, trailing))
      | None \<Rightarrow> scanTemplate cs (acc @ [c]))"
  by pat_completeness auto
termination
  by (relation "measure (\<lambda>(s, acc). length s)") auto

text \<open>
  Modelled from the spec: Section 3 has \<open>orderedFields\<close> without duplicates, in order of
  first appearance.
\<close>

definition orderedUnique :: "string list \<Rightarrow> string list" where
  "orderedUnique names = rev (remdups (rev names))"

text \<open>
  Modelled from the spec: the contract \<open>parse(template) -> (orderedFields,
  prefixByField, trailing)\<close> of Section 4.1. An empty fragment stands for the
  specification's \<open>none\<close>. The map holds one prefix for each field name; for a
  field that occurs more than once the specification does not say which of its
  prefixes that is, and here the last one is kept.
\<close>

definition parseCustomTemplate :: "bytes \<Rightarrow> string list \<times> (string \<rightharpoonup> bytes) \<times> bytes" where
  "parseCustomTemplate template =
     (case scanTemplate template [] of
        (flds, trailing) \<Rightarrow> (orderedUnique (map fst flds), map_of (rev flds), trailing))"

text \<open>A template contains a placeholder when one starts at some position of it.\<close>

definition containsPlaceholder :: "bytes \<Rightarrow> bool" where
  "containsPlaceholder template = list_ex (\<lambda>s. placeholder s \<noteq> None) (suffixes template)"


text \<open>
  The identifiers of the placeholders of a template, in order of appearance and with
  repetitions.
\<close>

definition templateFields :: "bytes \<Rightarrow> string list" where
  "templateFields template = map fst (fst (scanTemplate template []))"


section \<open>Properties\<close>

subsection \<open>sanitizeFilename\<close>

lemma Replace_single:
  "n < 0 \<Longrightarrow> Replace s [a] [b] n = map (\<lambda>c. if c = a then b else c) s"
proof (induction s)
  case Nil
  show ?case by (simp add: Replace.simps)
next
  case (Cons c cs)
  then show ?case
    by (subst Replace.simps) auto
qed

text \<open>
  Claim C10. For every string \<open>s\<close>, \<open>sanitizeFilename s\<close> is \<open>s\<close> with each space,
  colon, slash and backslash replaced by a hyphen and every other character unchanged;
  it has the length of \<open>s\<close> and contains none of the four characters.
\<close>

theorem sanitizeFilename_replaces:
  "sanitizeFilename s =
     map (\<lambda>c. if c = CHR '' '' \<or> c = CHR '':'' \<or> c = CHR ''/'' \<or> c = CHR 0x5C
               then CHR ''-'' else c) s
   \<and> length (sanitizeFilename s) = length s
   \<and> set (sanitizeFilename s) \<inter> {CHR '' '', CHR '':'', CHR ''/'', CHR 0x5C} = {}"
proof -
  have eq: "sanitizeFilename s =
     map (\<lambda>c. if c = CHR '' '' \<or> c = CHR '':'' \<or> c = CHR ''/'' \<or> c = CHR 0x5C
               then CHR ''-'' else c) s"
    by (simp add: sanitizeFilename_def Replace_single Let_def)
  moreover have "length (sanitizeFilename s) = length s"
    by (simp add: eq)
  moreover have "set (sanitizeFilename s) \<inter> {CHR '' '', CHR '':'', CHR ''/'', CHR 0x5C} = {}"
    by (auto simp add: eq)
  ultimately show ?thesis by blast
qed

subsection \<open>NewGeneratorWithTemplate\<close>

text \<open>
  Claim C8. \<open>NewGeneratorWithTemplate\<close> returns \<open>ErrNotValidTemplate\<close> together with the
  zero \<open>GeneratorCorpus\<close> for every template type other than exactly \<open>placeholder\<close> and
  \<open>gotext\<close>; for these two it returns no error and a \<open>GeneratorCorpus\<close> that carries the
  arguments and the selector \<open>templateTypeCustom\<close>, respectively \<open>templateTypeGoText\<close>.
\<close>

theorem NewGeneratorWithTemplate_selector:
  "(tt \<noteq> ''placeholder'' \<and> tt \<noteq> ''gotext'' \<longrightarrow>
      NewGeneratorWithTemplate now cfg fsys loc tt = (GeneratorCorpus_zero, Some ErrNotValidTemplate))
   \<and> (tt = ''placeholder'' \<or> tt = ''gotext'' \<longrightarrow>
      snd (NewGeneratorWithTemplate now cfg fsys loc tt) = None
      \<and> config (fst (NewGeneratorWithTemplate now cfg fsys loc tt)) = cfg
      \<and> fs (fst (NewGeneratorWithTemplate now cfg fsys loc tt)) = fsys
      \<and> location (fst (NewGeneratorWithTemplate now cfg fsys loc tt)) = loc
      \<and> templateType (fst (NewGeneratorWithTemplate now cfg fsys loc tt))
          = (if tt = ''placeholder'' then templateTypeCustom else templateTypeGoText))
   \<and> templateTypeCustom \<noteq> templateTypeGoText"
  by (simp add: NewGeneratorWithTemplate_def templateTypeCustom_def templateTypeGoText_def)

theorem NewGeneratorWithTemplate_selector_witness:
  "NewGeneratorWithTemplate 0 (Map.empty :: unit Config) (None :: unit option) ''corpus'' ''Placeholder''
      = (GeneratorCorpus_zero, Some ErrNotValidTemplate)
   \<and> NewGeneratorWithTemplate 0 (Map.empty :: unit Config) (None :: unit option) ''corpus'' []
      = (GeneratorCorpus_zero, Some ErrNotValidTemplate)
   \<and> snd (NewGeneratorWithTemplate 0 (Map.empty :: unit Config) (None :: unit option) ''corpus''
        ''placeholder'') = None
   \<and> templateType (fst (NewGeneratorWithTemplate 0 (Map.empty :: unit Config) (None :: unit option)
        ''corpus'' ''placeholder'')) = templateTypeCustom
   \<and> snd (NewGeneratorWithTemplate 0 (Map.empty :: unit Config) (None :: unit option) ''corpus''
        ''gotext'') = None
   \<and> templateType (fst (NewGeneratorWithTemplate 0 (Map.empty :: unit Config) (None :: unit option)
        ''corpus'' ''gotext'')) = templateTypeGoText"
  using NewGeneratorWithTemplate_selector [of "''Placeholder''" 0 "Map.empty :: unit Config"
      "None :: unit option" "''corpus''"]
    NewGeneratorWithTemplate_selector [of "[]" 0 "Map.empty :: unit Config"
      "None :: unit option" "''corpus''"]
    NewGeneratorWithTemplate_selector [of "''placeholder''" 0 "Map.empty :: unit Config"
      "None :: unit option" "''corpus''"]
    NewGeneratorWithTemplate_selector [of "''gotext''" 0 "Map.empty :: unit Config"
      "None :: unit option" "''corpus''"]
  by simp

subsection \<open>One iteration of the emission loop\<close>

lemma emitLoop_exit:
  "\<not> currentSize < totSize \<Longrightarrow>
   emitLoop evgen fWrite totSize createPayload currentSize state buf f
     = Some (Returned (Close evgen state), state, f)"
  by (subst emitLoop.simps) simp

lemma emitLoop_panic:
  "currentSize < totSize \<Longrightarrow> Truncate buf (length createPayload) = None \<Longrightarrow>
   emitLoop evgen fWrite totSize createPayload currentSize state buf f
     = Some (Panicked, state, f)"
  by (subst emitLoop.simps) simp

lemma emitLoop_emit_error:
  "currentSize < totSize \<Longrightarrow> Truncate buf (length createPayload) = Some buf1 \<Longrightarrow>
   Emit evgen state = (state', out, Some err) \<Longrightarrow>
   emitLoop evgen fWrite totSize createPayload currentSize state buf f
     = Some (Returned (Some err), state', f)"
  by (subst emitLoop.simps) simp

lemma emitLoop_write_error:
  "currentSize < totSize \<Longrightarrow> Truncate buf (length createPayload) = Some buf1 \<Longrightarrow>
   Emit evgen state = (state', out, None) \<Longrightarrow>
   fWrite f (buf1 @ out @ [CHR 0x0A]) = (f', Some err) \<Longrightarrow>
   emitLoop evgen fWrite totSize createPayload currentSize state buf f
     = Some (Returned (Some err), state', f')"
  by (subst emitLoop.simps) simp

lemma emitLoop_step:
  "currentSize < totSize \<Longrightarrow> Truncate buf (length createPayload) = Some buf1 \<Longrightarrow>
   Emit evgen state = (state', out, None) \<Longrightarrow>
   fWrite f (buf1 @ out @ [CHR 0x0A]) = (f', None) \<Longrightarrow>
   emitLoop evgen fWrite totSize createPayload currentSize state buf f
     = emitLoop evgen fWrite totSize createPayload
         (currentSize + of_nat (length (buf1 @ out @ [CHR 0x0A]))) state'
         (buf1 @ out @ [CHR 0x0A]) f'"
  by (subst emitLoop.simps) (simp add: Let_def)

lemma Truncate_length: "Truncate b n = Some b1 \<Longrightarrow> length b1 = n"
  by (auto simp: Truncate_def split: if_splits)

lemma counter_no_wrap:
  fixes currentSize totSize :: "64 word"
  assumes "currentSize < totSize" "n \<le> B" "unat totSize + B \<le> 2 ^ 64"
  shows "unat (currentSize + of_nat n) = unat currentSize + n"
proof -
  from assms(1) have "unat currentSize < unat totSize"
    by (simp add: word_less_nat_alt)
  with assms(2,3) have "unat currentSize + n < 2 ^ 64" by linarith
  then show ?thesis
    by (simp add: unat_word_ariths unat_of_nat)
qed

text \<open>
  Claim C7. When \<open>Emit\<close> fails in an iteration, the loop returns that very error at once:
  the file is as it was before the iteration (nothing is written) and the generation
  state is the one \<open>Emit\<close> left. When the file's \<open>Write\<close> fails, the loop returns that very
  error at once, with the file as the failed write left it and the state as \<open>Emit\<close> left
  it: the write is not tried again and no further record is emitted. This holds from
  every loop state, so for every iteration.
\<close>

theorem emitLoop_error_aborts:
  assumes "currentSize < totSize"
      and "Truncate buf (length createPayload) = Some kept"
      and "Emit evgen state = (state', out, r)"
  shows "(r = Some err \<longrightarrow>
            emitLoop evgen fWrite totSize createPayload currentSize state buf f
              = Some (Returned (Some err), state', f))
       \<and> (r = None \<and> fWrite f (kept @ out @ [CHR 0x0A]) = (f', Some err) \<longrightarrow>
            emitLoop evgen fWrite totSize createPayload currentSize state buf f
              = Some (Returned (Some err), state', f'))"
  using assms by (auto simp add: emitLoop_emit_error emitLoop_write_error)

theorem emitLoop_error_aborts_witness:
  "emitLoop (failGen (ErrorString ''synthesis'')) logWrite 5 [] 0 () [] []
     = Some (Returned (Some (ErrorString ''synthesis'')), (), [])
   \<and> emitLoop (constGen ''abc'') (failWrite (ErrorString ''disk full'')) 5 [] 0 () [] []
     = Some (Returned (Some (ErrorString ''disk full'')), (), [''abc\<newline>''])"
  using emitLoop_error_aborts [where currentSize = 0 and totSize = 5 and buf = "[]"
      and createPayload = "[]" and kept = "[]" and evgen = "failGen (ErrorString ''synthesis'')"
      and state = "()" and state' = "()" and out = "[]" and r = "Some (ErrorString ''synthesis'')"
      and err = "ErrorString ''synthesis''" and fWrite = logWrite and f = "[]"]
    emitLoop_error_aborts [where currentSize = 0 and totSize = 5 and buf = "[]"
      and createPayload = "[]" and kept = "[]" and evgen = "constGen ''abc''"
      and state = "()" and state' = "()" and out = "''abc''" and r = None
      and err = "ErrorString ''disk full''" and fWrite = "failWrite (ErrorString ''disk full'')"
      and f = "[]" and f' = "[''abc\<newline>'']"]
  by (simp add: failGen_def constGen_def failWrite_def Truncate_def)

subsection \<open>Termination of the emission loop\<close>

text \<open>
  Claim C9, as amended. If every buffer handed to the file is shorter than \<open>B\<close> bytes
  (the create payload, the record and the newline) and \<open>totSize + B\<close> does not exceed
  \<open>2 ^ 64\<close>, so that the counter cannot wrap around before it reaches \<open>totSize\<close>, then
  the loop returns from every state, whatever \<open>Emit\<close> and the file do, and also when
  records render to zero bytes.
\<close>

theorem emitLoop_terminates:
  assumes bound: "\<And>s. length createPayload + length (fst (snd (Emit evgen s))) < B"
      and nowrap: "unat totSize + B \<le> 2 ^ 64"
  shows "\<exists>r. emitLoop evgen fWrite totSize createPayload currentSize state buf f = Some r"
proof (induction "unat totSize - unat currentSize" arbitrary: currentSize state buf f rule: less_induct)
  case less
  show ?case
  proof (cases "currentSize < totSize")
    case False
    then show ?thesis by (simp add: emitLoop_exit)
  next
    case lt: True
    show ?thesis
    proof (cases "Truncate buf (length createPayload)")
      case None
      with lt show ?thesis by (simp add: emitLoop_panic)
    next
      case tr: (Some buf1)
      obtain state' out err where em: "Emit evgen state = (state', out, err)"
        by (cases "Emit evgen state") auto
      show ?thesis
      proof (cases err)
        case (Some e)
        with lt tr em show ?thesis by (simp add: emitLoop_emit_error)
      next
        case None
        define buf3 where "buf3 = buf1 @ out @ [CHR 0x0A]"
        obtain f' werr where wr: "fWrite f buf3 = (f', werr)"
          by (cases "fWrite f buf3") auto
        show ?thesis
        proof (cases werr)
          case (Some e)
          with lt tr em None wr show ?thesis
            by (simp add: emitLoop_write_error buf3_def)
        next
          case wnone: None
          have L: "length buf3 = length createPayload + length out + 1"
            by (simp add: buf3_def Truncate_length[OF tr])
          from bound[of state] em have "length buf3 \<le> B" by (simp add: L)
          from counter_no_wrap[OF lt this nowrap]
          have "unat (currentSize + of_nat (length buf3)) = unat currentSize + length buf3" .
          moreover from lt have "unat currentSize < unat totSize"
            by (simp add: word_less_nat_alt)
          ultimately have "unat totSize - unat (currentSize + of_nat (length buf3))
              < unat totSize - unat currentSize"
            using L by linarith
          then have "\<exists>r. emitLoop evgen fWrite totSize createPayload
              (currentSize + of_nat (length buf3)) state' buf3 f' = Some r"
            by (rule less)
          moreover have "emitLoop evgen fWrite totSize createPayload currentSize state buf f
              = emitLoop evgen fWrite totSize createPayload
                  (currentSize + of_nat (length buf3)) state' buf3 f'"
            unfolding buf3_def using lt tr em None wr wnone
            by (intro emitLoop_step) (simp_all add: buf3_def)
          ultimately show ?thesis by (simp only:)
        qed
      qed
    qed
  qed
qed


theorem emitLoop_terminates_witness:
  "\<exists>r. emitLoop (constGen []) discardWrite 3 [] 0 () [] () = Some r"
  using emitLoop_terminates [of "[]" "constGen []" 1 3 discardWrite 0 "()" "[]" "()"]
  by (simp add: constGen_def)

subsection \<open>Runs that never return\<close>

lemma stuck_step:
  assumes st: "stuck d evgen fWrite totSize createPayload currentSize buf"
  obtains buf1 state' out f' where
    "currentSize < totSize"
    "Truncate buf (length createPayload) = Some buf1"
    "Emit evgen state = (state', out, None)"
    "fWrite f (buf1 @ out @ [CHR 0x0A]) = (f', None)"
    "stuck d evgen fWrite totSize createPayload
       (currentSize + of_nat (length (buf1 @ out @ [CHR 0x0A]))) (buf1 @ out @ [CHR 0x0A])"
proof -
  from st have emitOK: "snd (snd (Emit evgen state)) = None"
    and dvdL: "d dvd length createPayload + length (fst (snd (Emit evgen state))) + 1"
    and d64: "d dvd 2 ^ 64" and big: "2 ^ 64 < unat totSize + d"
    and dcs: "d dvd unat currentSize" and len: "length createPayload \<le> length buf"
    by (simp_all add: stuck_def)
  have "unat currentSize < 2 ^ 64"
    using unsigned_less[of currentSize, where 'a = nat] by simp
  with d64 dcs have "d dvd 2 ^ 64 - unat currentSize"
    by (simp add: dvd_diff_nat)
  then have "d \<le> 2 ^ 64 - unat currentSize"
    using \<open>unat currentSize < 2 ^ 64\<close> by (intro dvd_imp_le) simp_all
  with big \<open>unat currentSize < 2 ^ 64\<close>
  have "unat currentSize < unat totSize" by linarith
  then have lt: "currentSize < totSize"
    by (simp add: word_less_nat_alt)
  obtain buf1 where tr: "Truncate buf (length createPayload) = Some buf1"
    using len by (simp add: Truncate_def)
  obtain state' out err where em: "Emit evgen state = (state', out, err)"
    by (cases "Emit evgen state") auto
  with emitOK have err: "err = None" by simp
  define buf3 where "buf3 = buf1 @ out @ [CHR 0x0A]"
  obtain f' werr where wr: "fWrite f buf3 = (f', werr)"
    by (cases "fWrite f buf3") auto
  from st have "snd (fWrite f buf3) = None" by (simp add: stuck_def)
  with wr have werr: "werr = None" by simp
  have L: "length buf3 = length createPayload + length out + 1"
    by (simp add: buf3_def Truncate_length[OF tr])
  with dvdL em have "d dvd length buf3" by simp
  with dcs d64 have "d dvd unat (currentSize + of_nat (length buf3))"
    by (simp add: unat_word_ariths unat_of_nat dvd_mod)
  moreover have "length createPayload \<le> length buf3" by (simp add: L)
  ultimately have "stuck d evgen fWrite totSize createPayload
      (currentSize + of_nat (length buf3)) buf3"
    using st by (simp add: stuck_def)
  with lt tr em err wr werr show thesis
    by (intro that[of buf1 state' out f']) (simp_all add: buf3_def)
qed

lemma emitLoop_never_returns:
  assumes run: "emitLoop evgen fWrite totSize createPayload currentSize state buf f = Some y"
  shows "\<not> stuck d evgen fWrite totSize createPayload currentSize buf"
  apply (rule emitLoop.raw_induct[where
        P = "\<lambda>evgen fWrite totSize createPayload currentSize state buf f y.
               \<not> stuck d evgen fWrite totSize createPayload currentSize buf", OF _ run])
  subgoal premises prems for loop evgen fWrite totSize createPayload currentSize state buf f y
  proof
    assume st: "stuck d evgen fWrite totSize createPayload currentSize buf"
    from stuck_step[OF st, of state f]
    obtain buf1 state' out f' where
      lt: "currentSize < totSize" and
      tr: "Truncate buf (length createPayload) = Some buf1" and
      em: "Emit evgen state = (state', out, None)" and
      wr: "fWrite f (buf1 @ out @ [CHR 0x0A]) = (f', None)" and
      st': "stuck d evgen fWrite totSize createPayload
         (currentSize + of_nat (length (buf1 @ out @ [CHR 0x0A]))) (buf1 @ out @ [CHR 0x0A])"
      by blast
    from prems(2) lt tr em wr
    have "loop evgen fWrite totSize createPayload
        (currentSize + of_nat (length (buf1 @ out @ [CHR 0x0A]))) state'
        (buf1 @ out @ [CHR 0x0A]) f' = Some y"
      by (simp add: Let_def)
    from prems(1)[OF this] st' show False by simp
  qed
  done

lemma constGen_diverges:
  assumes "d dvd length out + 1" "d dvd 2 ^ 64" "2 ^ 64 < unat totSize + d"
    and "\<And>f b. snd (fWrite f b) = None"
  shows "emitLoop (constGen out) fWrite totSize [] 0 () [] f = None"
proof (cases "emitLoop (constGen out) fWrite totSize [] 0 () [] f")
  case None
  then show ?thesis .
next
  case (Some y)
  have "stuck d (constGen out) fWrite totSize [] 0 []"
    using assms by (simp add: stuck_def constGen_def)
  with emitLoop_never_returns[OF Some, of d] show ?thesis by simp
qed

text \<open>
  Claim C9 as stated fails: with the target \<open>2 ^ 64 - 1\<close> and a generator whose records
  are the single byte \<open>x\<close>, every buffer written is two bytes long, the counter stays
  even and wraps from \<open>2 ^ 64 - 2\<close> to 0, so it is below the target forever although
  every \<open>Emit\<close> and every \<open>Write\<close> succeeds.
\<close>

theorem emitLoop_terminates_counterexample:
  "emitLoop (constGen ''x'') discardWrite (2 ^ 64 - 1) [] 0 () [] () = None"
proof (rule constGen_diverges[of 2])
  have "length ''x'' + 1 = (2::nat)" by simp
  then show "(2::nat) dvd length ''x'' + 1" by (simp only: dvd_refl)
qed (simp_all add: discardWrite_def)

subsection \<open>The byte budget\<close>

lemma written_snoc: "written (log @ [b]) = written log + length b"
  by (simp add: written_def)

lemma payloads_0: "payloads createPayload evgen 0 state = []"
  by (simp add: payloads_def)

lemma payloads_Suc:
  "Emit evgen state = (state', out, err) \<Longrightarrow>
   payloads createPayload evgen (Suc n) state
     = (createPayload @ out @ [CHR 0x0A]) # payloads createPayload evgen n state'"
  by (simp add: payloads_def split: prod.splits)

lemma records_Suc_state:
  "Emit evgen state = (state', out, err) \<Longrightarrow>
   fst (records evgen (Suc n) state) = fst (records evgen n state')"
  by (simp split: prod.splits)

lemma length_payloads: "length (payloads createPayload evgen n state) = n"
proof (induction n arbitrary: state)
  case 0
  show ?case by (simp add: payloads_def)
next
  case (Suc n)
  obtain state' out err where em: "Emit evgen state = (state', out, err)"
    by (cases "Emit evgen state") auto
  show ?case by (simp add: payloads_Suc[OF em] Suc.IH)
qed

lemma emitLoop_records:
  assumes emitOK: "\<And>s. snd (snd (Emit evgen s)) = None"
      and bound: "\<And>s. length createPayload + length (fst (snd (Emit evgen s))) < B"
      and nowrap: "unat totSize + B \<le> 2 ^ 64"
  shows "unat currentSize = written log \<Longrightarrow>
         (\<forall>k < length log. written (take k log) < unat totSize) \<Longrightarrow>
         prefix createPayload buf \<Longrightarrow>
         \<exists>n. emitLoop evgen logWrite totSize createPayload currentSize state buf log
             = Some (Returned (Close evgen (fst (records evgen n state))),
                     fst (records evgen n state),
                     log @ payloads createPayload evgen n state) \<and>
           unat totSize \<le> written (log @ payloads createPayload evgen n state) \<and>
           (\<forall>k < length log + n.
              written (take k (log @ payloads createPayload evgen n state)) < unat totSize)"
proof (induction "unat totSize - unat currentSize" arbitrary: currentSize state buf log
    rule: less_induct)
  case less
  show ?case
  proof (cases "currentSize < totSize")
    case False
    then have "unat totSize \<le> written log"
      using less.prems(1) by (simp add: word_less_nat_alt)
    with False less.prems(2) have
      "emitLoop evgen logWrite totSize createPayload currentSize state buf log
         = Some (Returned (Close evgen (fst (records evgen 0 state))),
                 fst (records evgen 0 state),
                 log @ payloads createPayload evgen 0 state) \<and>
       unat totSize \<le> written (log @ payloads createPayload evgen 0 state) \<and>
       (\<forall>k < length log + 0.
          written (take k (log @ payloads createPayload evgen 0 state)) < unat totSize)"
      by (simp add: emitLoop_exit payloads_0)
    then show ?thesis by (rule exI)
  next
    case lt: True
    from less.prems(3) have tr: "Truncate buf (length createPayload) = Some createPayload"
      by (auto simp add: Truncate_def prefix_def)
    obtain state' out err where em: "Emit evgen state = (state', out, err)"
      by (cases "Emit evgen state") auto
    with emitOK[of state] have em': "Emit evgen state = (state', out, None)" by simp
    define buf3 where "buf3 = createPayload @ out @ [CHR 0x0A]"
    have wr: "logWrite log buf3 = (log @ [buf3], None)"
      by (simp add: logWrite_def)
    have L: "length buf3 = length createPayload + length out + 1"
      by (simp add: buf3_def)
    from bound[of state] em have "length buf3 \<le> B" by (simp add: L)
    from counter_no_wrap[OF lt this nowrap]
    have cs': "unat (currentSize + of_nat (length buf3)) = unat currentSize + length buf3" .
    from lt have below: "unat currentSize < unat totSize"
      by (simp add: word_less_nat_alt)
    have decr: "unat totSize - unat (currentSize + of_nat (length buf3))
        < unat totSize - unat currentSize"
      using cs' below L by linarith
    have inv1: "unat (currentSize + of_nat (length buf3)) = written (log @ [buf3])"
      using cs' less.prems(1) by (simp add: written_snoc)
    have inv2: "\<forall>k < length (log @ [buf3]). written (take k (log @ [buf3])) < unat totSize"
    proof (intro allI impI)
      fix k assume "k < length (log @ [buf3])"
      then have "k < length log \<or> k = length log" by auto
      then show "written (take k (log @ [buf3])) < unat totSize"
        using less.prems(1,2) below by auto
    qed
    have inv3: "prefix createPayload buf3" by (simp add: buf3_def)
    have step: "emitLoop evgen logWrite totSize createPayload currentSize state buf log
        = emitLoop evgen logWrite totSize createPayload
            (currentSize + of_nat (length buf3)) state' buf3 (log @ [buf3])"
      unfolding buf3_def using lt tr em' wr
      by (intro emitLoop_step) (simp_all add: buf3_def)
    from less.hyps[OF decr inv1 inv2 inv3, of state']
    obtain n where
      run: "emitLoop evgen logWrite totSize createPayload
              (currentSize + of_nat (length buf3)) state' buf3 (log @ [buf3])
            = Some (Returned (Close evgen (fst (records evgen n state'))),
                    fst (records evgen n state'),
                    (log @ [buf3]) @ payloads createPayload evgen n state')"
      and reach: "unat totSize \<le> written ((log @ [buf3]) @ payloads createPayload evgen n state')"
      and below': "\<forall>k < length (log @ [buf3]) + n.
          written (take k ((log @ [buf3]) @ payloads createPayload evgen n state')) < unat totSize"
      by blast
    have pl: "(log @ [buf3]) @ payloads createPayload evgen n state'
        = log @ payloads createPayload evgen (Suc n) state"
      by (simp add: payloads_Suc[OF em] buf3_def)
    have st: "fst (records evgen n state') = fst (records evgen (Suc n) state)"
      by (rule records_Suc_state[OF em, symmetric])
    have "emitLoop evgen logWrite totSize createPayload currentSize state buf log
         = Some (Returned (Close evgen (fst (records evgen (Suc n) state))),
                 fst (records evgen (Suc n) state),
                 log @ payloads createPayload evgen (Suc n) state) \<and>
       unat totSize \<le> written (log @ payloads createPayload evgen (Suc n) state) \<and>
       (\<forall>k < length log + Suc n.
          written (take k (log @ payloads createPayload evgen (Suc n) state)) < unat totSize)"
      using run reach below' unfolding step pl st by simp
    then show ?thesis by (rule exI)
  qed
qed

text \<open>
  Claim C4, as amended. Let the call have one of the shapes its callers use: no
  template, or a template and an empty create payload (with both non-empty the first
  \<open>Truncate\<close> panics). Let the generator be built, let every \<open>Emit\<close> succeed, let the file
  accept every write, and let the counter be unable to wrap around (every buffer handed to
  the file is shorter than \<open>B\<close> bytes and \<open>totSize + B\<close> does not exceed \<open>2 ^ 64\<close>). Then
  \<open>eventsPayloadFromFields\<close> invokes \<open>Emit\<close> some \<open>n\<close> times in a row, each time on the state
  the call before left, and hands the file after each call the create payload, the record
  and a newline; it returns what \<open>Close\<close> returns. The bytes written reach or exceed
  \<open>totSize\<close> after the \<open>n\<close> records and were below \<open>totSize\<close> after every smaller number of
  them, so the loop stops exactly when the target is reached, never earlier; when
  \<open>totSize\<close> is 0, \<open>n\<close> is 0: no record is emitted.
\<close>

theorem eventsPayloadFromFields_budget:
  assumes reach:
        "template = [] \<and> genlib_NewGenerator lib (config gc) flds = Inr evgen
       \<or> template \<noteq> [] \<and> createPayload = [] \<and> templateType gc = templateTypeCustom
           \<and> genlib_NewGeneratorWithCustomTemplate lib template (config gc) flds = Inr evgen
       \<or> template \<noteq> [] \<and> createPayload = [] \<and> templateType gc = templateTypeGoText
           \<and> genlib_NewGeneratorWithTextTemplate lib template (config gc) flds = Inr evgen"
      and emitOK: "\<And>s. snd (snd (Emit evgen s)) = None"
      and bound: "\<And>s. length createPayload + length (fst (snd (Emit evgen s))) < B"
      and nowrap: "unat totSize + B \<le> 2 ^ 64"
  shows "\<exists>n. eventsPayloadFromFields lib logWrite gc template flds totSize createPayload []
             = Some (Returned (Close evgen (fst (records evgen n (genlib_NewGenState lib)))),
                     payloads createPayload evgen n (genlib_NewGenState lib)) \<and>
           unat totSize \<le> written (payloads createPayload evgen n (genlib_NewGenState lib)) \<and>
           (\<forall>k < n. written (take k (payloads createPayload evgen n (genlib_NewGenState lib)))
                       < unat totSize) \<and>
           (totSize = 0 \<longrightarrow> n = 0)"
proof -
  define buf where "buf = (if template = [] then createPayload else [])"
  from reach have pre: "prefix createPayload buf"
    by (auto simp add: buf_def)
  from reach have call:
    "eventsPayloadFromFields lib logWrite gc template flds totSize createPayload []
       = map_option (\<lambda>(r, st, f'). (r, f'))
           (emitLoop evgen logWrite totSize createPayload 0 (genlib_NewGenState lib) buf [])"
    by (auto simp add: eventsPayloadFromFields_def buf_def Let_def
        templateTypeCustom_def templateTypeGoText_def)
  from emitLoop_records[OF emitOK bound nowrap, where currentSize = 0 and log = "[]"
      and buf = buf and state = "genlib_NewGenState lib"] pre
  obtain n where
    run: "emitLoop evgen logWrite totSize createPayload 0 (genlib_NewGenState lib) buf []
            = Some (Returned (Close evgen (fst (records evgen n (genlib_NewGenState lib)))),
                    fst (records evgen n (genlib_NewGenState lib)),
                    payloads createPayload evgen n (genlib_NewGenState lib))"
    and reach': "unat totSize \<le> written (payloads createPayload evgen n (genlib_NewGenState lib))"
    and below: "\<forall>k < n. written (take k (payloads createPayload evgen n (genlib_NewGenState lib)))
                       < unat totSize"
    by (auto simp add: written_def)
  have zero: "totSize = 0 \<longrightarrow> n = 0"
  proof
    assume "totSize = 0"
    show "n = 0"
    proof (rule ccontr)
      assume "n \<noteq> 0"
      then have "0 < n" by simp
      with below have "written (take 0 (payloads createPayload evgen n (genlib_NewGenState lib)))
          < unat totSize" by blast
      with \<open>totSize = 0\<close> show False by simp
    qed
  qed
  have "eventsPayloadFromFields lib logWrite gc template flds totSize createPayload []
             = Some (Returned (Close evgen (fst (records evgen n (genlib_NewGenState lib)))),
                     payloads createPayload evgen n (genlib_NewGenState lib)) \<and>
           unat totSize \<le> written (payloads createPayload evgen n (genlib_NewGenState lib)) \<and>
           (\<forall>k < n. written (take k (payloads createPayload evgen n (genlib_NewGenState lib)))
                       < unat totSize) \<and>
           (totSize = 0 \<longrightarrow> n = 0)"
    using run reach' below zero by (simp add: call)
  then show ?thesis by (rule exI)
qed

theorem eventsPayloadFromFields_budget_witness:
  "(\<exists>n. eventsPayloadFromFields (constLib ''abc'') logWrite testCorpus [] () 10 ''P:'' []
          = Some (Returned None, payloads ''P:'' (constGen ''abc'') n ())
        \<and> unat (10 :: 64 word) \<le> written (payloads ''P:'' (constGen ''abc'') n ()))
   \<and> eventsPayloadFromFields (constLib ''abc'') logWrite testCorpus [] () 10 ''P:'' []
        = Some (Returned None, [''P:abc\<newline>'', ''P:abc\<newline>''])"
proof -
  have "\<exists>n. eventsPayloadFromFields (constLib ''abc'') logWrite testCorpus [] () 10 ''P:'' []
          = Some (Returned None, payloads ''P:'' (constGen ''abc'') n ())
        \<and> unat (10 :: 64 word) \<le> written (payloads ''P:'' (constGen ''abc'') n ())"
    using eventsPayloadFromFields_budget [where lib = "constLib ''abc''" and gc = testCorpus
        and template = "[]" and flds = "()" and evgen = "constGen ''abc''"
        and createPayload = "''P:''" and B = 7 and totSize = 10]
    by (auto simp add: constLib_def constGen_def)
  moreover have "eventsPayloadFromFields (constLib ''abc'') logWrite testCorpus [] () 10 ''P:'' []
        = Some (Returned None, [''P:abc\<newline>'', ''P:abc\<newline>''])"
    by (simp add: eventsPayloadFromFields_def constLib_def constGen_def emitLoop.simps
        logWrite_def Truncate_def Let_def)
  ultimately show ?thesis by blast
qed

text \<open>
  Claim C4 as stated fails in three ways. With the target \<open>2 ^ 64 - 2\<close> and records
  \<open>abc\<close>, every buffer written is four bytes long, the counter is a multiple of four and
  wraps around to 0 after \<open>2 ^ 64 - 4\<close>: the loop does not stop when the bytes written
  pass the target, nor ever after. With a template and a non-empty create payload the
  buffer starts empty and the first \<open>Truncate\<close> panics: the loop stops before anything is
  written. With a generator whose \<open>Emit\<close> fails the loop returns the error at the first
  call, again before anything is written.
\<close>

theorem eventsPayloadFromFields_budget_counterexample:
  "eventsPayloadFromFields (constLib ''abc'') logWrite testCorpus [] () (2 ^ 64 - 2) [] [] = None
   \<and> eventsPayloadFromFields (constLib ''abc'') logWrite testCorpus ''{{.a}}'' () 10 ''P:'' []
       = Some (Panicked, [])
   \<and> eventsPayloadFromFields (failLib (ErrorString ''synthesis'')) logWrite testCorpus [] () 10
         ''P:'' []
       = Some (Returned (Some (ErrorString ''synthesis'')), [])"
proof (intro conjI)
  have "emitLoop (constGen ''abc'') logWrite (2 ^ 64 - 2) [] 0 () [] [] = None"
  proof (rule constGen_diverges[of 4])
    have "length ''abc'' + 1 = (4::nat)" by simp
    then show "(4::nat) dvd length ''abc'' + 1" by (simp only: dvd_refl)
  qed (simp_all add: logWrite_def)
  then show "eventsPayloadFromFields (constLib ''abc'') logWrite testCorpus [] () (2 ^ 64 - 2) [] []
      = None"
    by (simp add: eventsPayloadFromFields_def constLib_def)
  show "eventsPayloadFromFields (constLib ''abc'') logWrite testCorpus ''{{.a}}'' () 10 ''P:'' []
       = Some (Panicked, [])"
    by (simp add: eventsPayloadFromFields_def constLib_def testCorpus_def NewGenerator_def
        emitLoop_panic Truncate_def)
  show "eventsPayloadFromFields (failLib (ErrorString ''synthesis'')) logWrite testCorpus [] () 10
         ''P:'' []
       = Some (Returned (Some (ErrorString ''synthesis'')), [])"
    by (simp add: eventsPayloadFromFields_def failLib_def failGen_def emitLoop.simps Truncate_def)
qed


subsection \<open>The template parser\<close>

lemma scanTemplate_no_placeholder:
  "\<not> containsPlaceholder template \<Longrightarrow> scanTemplate template acc = ([], acc @ template)"
proof (induction template arbitrary: acc)
  case Nil
  show ?case by simp
next
  case (Cons c cs)
  from Cons.prems have here: "placeholder (c # cs) = None"
    and rest: "\<not> containsPlaceholder cs"
    by (simp_all add: containsPlaceholder_def list_ex_iff)
  from Cons.IH[OF rest, of "acc @ [c]"] here show ?case by simp
qed

text \<open>
  Claim C5. For every template that contains no placeholder, \<open>parseCustomTemplate\<close>
  returns the empty field list, the empty prefix map and the whole input as the trailing
  fragment; the parser has no error outcome.
\<close>

theorem parseCustomTemplate_no_placeholder:
  "\<not> containsPlaceholder template \<Longrightarrow>
     parseCustomTemplate template = ([], Map.empty, template)"
  by (simp add: parseCustomTemplate_def scanTemplate_no_placeholder orderedUnique_def)

theorem parseCustomTemplate_no_placeholder_witness:
  "\<not> containsPlaceholder ''no field'' \<and>
   parseCustomTemplate ''no field'' = ([], Map.empty, ''no field'')"
proof -
  have h: "\<not> containsPlaceholder ''no field''"
    by (simp add: containsPlaceholder_def placeholder_def)
  from parseCustomTemplate_no_placeholder[OF h] h show ?thesis by simp
qed

lemma drop_placeholder_split:
  "drop (length name + 5) s = drop 2 (drop (length name) (drop 3 s))"
  by (simp add: add.commute)


lemma drop_past_placeholder:
  "drop (length name + 5) (''{{.'' @ name @ ''}}'' @ r) = r"
proof -
  have "drop (length name + 5) (''{{.'' @ name @ ''}}'' @ r)
      = drop 2 (drop (length name) (drop 3 (''{{.'' @ name @ ''}}'' @ r)))"
    by (rule drop_placeholder_split)
  also have "\<dots> = r" by (simp del: drop_drop)
  finally show ?thesis .
qed

lemma drop_past_name:
  "drop (3 + length name) (''{{.'' @ name @ r) = r"
proof -
  have "drop (3 + length name) (''{{.'' @ name @ r)
      = drop (length name) (drop 3 (''{{.'' @ name @ r))"
    by (simp only: drop_drop add.commute)
  also have "\<dots> = r" by (simp del: drop_drop)
  finally show ?thesis .
qed

lemma takeWhile_stop:
  "x \<notin> set xs \<Longrightarrow> takeWhile (\<lambda>c. c \<noteq> x) (xs @ x # ys) = xs"
  by (induction xs) auto



lemma placeholder_found:
  assumes "name \<noteq> []" "CHR ''}'' \<notin> set name"
  shows "placeholder (''{{.'' @ name @ ''}}'' @ rest) = Some name"
proof -
  have "takeWhile (\<lambda>c. c \<noteq> CHR ''}'') (name @ ''}}'' @ rest) = name"
    using assms(2) by (simp add: takeWhile_stop)
  moreover have "take 2 (drop (3 + length name) (''{{.'' @ name @ ''}}'' @ rest)) = ''}}''"
    by (simp only: drop_past_name) simp
  ultimately show ?thesis
    using assms(1) by (simp add: placeholder_def del: drop_drop)
qed

lemma scanTemplate_skip:
  "(\<forall>k < length a. placeholder (drop k (a @ s)) = None) \<Longrightarrow>
   scanTemplate (a @ s) acc = scanTemplate s (acc @ a)"
proof (induction a arbitrary: acc)
  case Nil
  show ?case by simp
next
  case (Cons c a)
  from Cons.prems have here: "placeholder (c # a @ s) = None"
    by force
  have rest: "\<forall>k < length a. placeholder (drop k (a @ s)) = None"
  proof (intro allI impI)
    fix k assume "k < length a"
    then have "Suc k < length (c # a)" by simp
    with Cons.prems have "placeholder (drop (Suc k) ((c # a) @ s)) = None" by blast
    then show "placeholder (drop k (a @ s)) = None" by simp
  qed
  from Cons.IH[OF rest, of "acc @ [c]"] here show ?case by simp
qed


text \<open>
  \<open>templateFields\<close> without reference to the scan: a template without placeholder has no
  fields, and a placeholder before which no placeholder starts is the first field, the
  others being those of the text behind it.
\<close>

lemma scanTemplate_plain_field:
  assumes "name \<noteq> []" "CHR ''}'' \<notin> set name"
  shows "scanTemplate (''{{.'' @ name @ ''}}'' @ rest) acc
        = (case scanTemplate rest [] of
             (flds, trailing) \<Rightarrow> ((name, acc) # flds, trailing))"
proof -
  have some: "placeholder (CHR ''{'' # ''{.'' @ name @ ''}}'' @ rest) = Some name"
    using placeholder_found[of name rest] assms by simp
  show ?thesis
    using some drop_past_placeholder[of name rest] by simp
qed

lemma templateFields_no_placeholder:
  "\<not> containsPlaceholder template \<Longrightarrow> templateFields template = []"
  by (simp add: templateFields_def scanTemplate_no_placeholder)

lemma templateFields_placeholder:
  assumes "name \<noteq> []" "CHR ''}'' \<notin> set name"
    and "\<forall>k < length a. placeholder (drop k (a @ ''{{.'' @ name @ ''}}'' @ rest)) = None"
  shows "templateFields (a @ ''{{.'' @ name @ ''}}'' @ rest) = name # templateFields rest"
proof -
  have "scanTemplate (a @ ''{{.'' @ name @ ''}}'' @ rest) []
      = scanTemplate (''{{.'' @ name @ ''}}'' @ rest) a"
    using scanTemplate_skip[OF assms(3), of "[]"] by simp
  also have "\<dots> = (case scanTemplate rest [] of
             (flds, trailing) \<Rightarrow> ((name, a) # flds, trailing))"
    by (rule scanTemplate_plain_field[OF assms(1,2)])
  finally show ?thesis
    by (simp add: templateFields_def split: prod.splits)
qed







lemma scanTemplate_repeated_field:
  "scanTemplate ''{{.a}}{{{.a}}{{.a}}'' [] = ([(''a'', []), (''a'', ''{''), (''a'', [])], [])"
  by (simp add: placeholder_def)

text \<open>
  The model against a fixture of \<open>Test_ParseTemplate\<close>, in what the test compares: the
  ordered fields, the keys of the prefix map and the trailing fragment.
\<close>

lemma parseCustomTemplate_fixture:
  "fst (parseCustomTemplate ''{{.aField}} with { in the middle {{.anotherField}}'')
     = [''aField'', ''anotherField'']
   \<and> dom (fst (snd (parseCustomTemplate ''{{.aField}} with { in the middle {{.anotherField}}'')))
     = {''aField'', ''anotherField''}
   \<and> snd (snd (parseCustomTemplate ''{{.aField}} with { in the middle {{.anotherField}}'')) = []"
  by (auto simp add: parseCustomTemplate_def placeholder_def orderedUnique_def)

end
